theory Spec2Isabelle
  imports Main "HOL-Library.Sublist"
begin

section \<open>Strings and character classes\<close>

text \<open>
  A Python \<^verbatim>\<open>str\<close> is a sequence of Unicode code points, and \<^verbatim>\<open>len\<close> counts code
  points. A string is therefore modelled as a list of code points (natural numbers), not
  as a list of bytes. \<open>ustr\<close> turns a literal into such a list, \<open>ord\<close> a character into
  its code point.
\<close>

type_synonym ustring = "nat list"

definition ord :: "char \<Rightarrow> nat" where
  "ord c = of_char c"

definition ustr :: "string \<Rightarrow> ustring" where
  "ustr s = map ord s"

text \<open>
  \<^verbatim>\<open>str.isspace\<close>, which is also the class \<^verbatim>\<open>\s\<close> of \<^verbatim>\<open>re\<close> on \<^verbatim>\<open>str\<close> patterns and the
  set of characters that \<^verbatim>\<open>str.strip()\<close> removes: the 29 white-space code points of
  Unicode.
\<close>

definition isspace :: "nat \<Rightarrow> bool" where
  "isspace c \<longleftrightarrow>
     (9 \<le> c \<and> c \<le> 13) \<or> (28 \<le> c \<and> c \<le> 32) \<or> c = 133 \<or> c = 160 \<or> c = 5760 \<or>
     (8192 \<le> c \<and> c \<le> 8202) \<or> c = 8232 \<or> c = 8233 \<or> c = 8239 \<or> c = 8287 \<or> c = 12288"

text \<open>
  The class \<^verbatim>\<open>\w\<close> of \<^verbatim>\<open>re\<close> on \<^verbatim>\<open>str\<close> patterns: the underscore and every alphanumeric
  character. On ASCII these are the digits and the letters. Beyond ASCII the answer is a
  table of the Unicode character database, which is no part of the repository: it is the
  parameter \<open>alnum\<close> of every function that matches a pattern.
\<close>

definition is_word :: "(nat \<Rightarrow> bool) \<Rightarrow> nat \<Rightarrow> bool" where
  "is_word alnum c \<longleftrightarrow>
     c = 95 \<or>
     (if c < 128 then (48 \<le> c \<and> c \<le> 57) \<or> (65 \<le> c \<and> c \<le> 90) \<or> (97 \<le> c \<and> c \<le> 122)
      else alnum c)"

text \<open>\<^verbatim>\<open>s.strip()\<close>: white space removed at both ends.\<close>

definition strip :: "ustring \<Rightarrow> ustring" where
  "strip s = rev (dropWhile isspace (rev (dropWhile isspace s)))"

text \<open>
  \<^verbatim>\<open>s.split('\n', maxsplit=1)\<close>: the text before the first line feed and the text after
  it, or the string alone when it holds no line feed.
\<close>

definition split1 :: "ustring \<Rightarrow> ustring list" where
  "split1 s =
     (case dropWhile (\<lambda>c. c \<noteq> 10) s of
        [] \<Rightarrow> [s]
      | _ # rest \<Rightarrow> [takeWhile (\<lambda>c. c \<noteq> 10) s, rest])"

text \<open>
  \<^verbatim>\<open>s.splitlines()\<close>: the lines of \<open>s\<close> without their line ends. A line ends at
  \<^verbatim>\<open>\n\<close>, \<^verbatim>\<open>\r\<close>, \<^verbatim>\<open>\r\n\<close>, \<^verbatim>\<open>\v\<close>, \<^verbatim>\<open>\f\<close>, the separators \<^verbatim>\<open>\x1c\<close>, \<^verbatim>\<open>\x1d\<close>, \<^verbatim>\<open>\x1e\<close>,
  \<^verbatim>\<open>\x85\<close>, U+2028 and U+2029; a line end at the very end of the text opens no
  further line.
\<close>

definition linebreak :: "nat \<Rightarrow> bool" where
  "linebreak c \<longleftrightarrow> (10 \<le> c \<and> c \<le> 13) \<or> (28 \<le> c \<and> c \<le> 30) \<or> c = 133 \<or> c = 8232 \<or> c = 8233"

fun splitlines_from :: "ustring \<Rightarrow> ustring \<Rightarrow> ustring list" where
  "splitlines_from acc [] = (if acc = [] then [] else [rev acc])"
| "splitlines_from acc [c] =
     (if linebreak c then [rev acc] else [rev (c # acc)])"
| "splitlines_from acc (c # d # cs) =
     (if c = 13 \<and> d = 10 then rev acc # splitlines_from [] cs
      else if linebreak c then rev acc # splitlines_from [] (d # cs)
      else splitlines_from (c # acc) (d # cs))"

definition splitlines :: "ustring \<Rightarrow> ustring list" where
  "splitlines s = splitlines_from [] s"

section \<open>Regular expressions\<close>

text \<open>
  The two patterns of the program use literals, character classes, greedy repetition of
  a class, sequence, alternative, the greedy option, capturing groups and the anchors.
  \<open>rx_match\<close> is the backtracking matcher of \<^verbatim>\<open>re\<close>: it returns every way of matching
  the expression at the current position, in the order in which backtracking tries them,
  so that the first element is the match that \<^verbatim>\<open>re.match\<close> reports. A state is the
  position, the text that remains, and the groups captured so far.

  The classes: \<open>Word\<close> is \<^verbatim>\<open>\w\<close>, \<open>Space\<close> is \<^verbatim>\<open>\s\<close>, \<open>Chr c\<close> the character \<open>c\<close>,
  \<open>AnyButNewline\<close> the dot (the patterns are compiled without \<^verbatim>\<open>DOTALL\<close>) and
  \<open>NoneOf\<close> a negated set \<^verbatim>\<open>[^...]\<close>. The expressions: \<open>Chars\<close> is a run of literal
  characters; \<open>OneOrMore k\<close> is \<^verbatim>\<open>k+\<close>, which tries the longest run of the class first
  and then every shorter one down to one character; \<open>Alt a b\<close> is \<^verbatim>\<open>a|b\<close>, trying \<open>a\<close>
  first; \<open>Opt a\<close> is \<^verbatim>\<open>a?\<close>, trying \<open>a\<close> before the empty match; \<open>Group n a\<close> is the
  capturing group number \<open>n\<close>; \<open>Bol\<close> is \<^verbatim>\<open>^\<close>, the start of the string; \<open>Eol\<close> is
  \<^verbatim>\<open>$\<close>, the end of the string or the place before a line feed that ends the string
  (the patterns are compiled without \<^verbatim>\<open>MULTILINE\<close>).
\<close>

datatype cclass =
    Word
  | Space
  | Chr nat
  | AnyButNewline
  | NoneOf "cclass list"

fun in_class :: "(nat \<Rightarrow> bool) \<Rightarrow> cclass \<Rightarrow> nat \<Rightarrow> bool" where
  "in_class alnum Word c = is_word alnum c"
| "in_class alnum Space c = isspace c"
| "in_class alnum (Chr d) c = (c = d)"
| "in_class alnum AnyButNewline c = (c \<noteq> 10)"
| "in_class alnum (NoneOf cs) c = (\<not> list_ex (\<lambda>x. in_class alnum x c) cs)"

datatype regex =
    Chars ustring
  | OneOrMore cclass
  | Seq regex regex
  | Alt regex regex
  | Opt regex
  | Group nat regex
  | Bol
  | Eol

type_synonym groups = "nat \<Rightarrow> ustring option"

type_synonym mstate = "nat \<times> ustring \<times> groups"

fun rx_match :: "(nat \<Rightarrow> bool) \<Rightarrow> regex \<Rightarrow> mstate \<Rightarrow> mstate list" where
  "rx_match alnum (Chars cs) (p, s, g) =
     (if prefix cs s then [(p + length cs, drop (length cs) s, g)] else [])"
| "rx_match alnum (OneOrMore k) (p, s, g) =
     map (\<lambda>n. (p + n, drop n s, g))
       (rev [1 ..< Suc (length (takeWhile (in_class alnum k) s))])"
| "rx_match alnum (Seq a b) st = concat (map (rx_match alnum b) (rx_match alnum a st))"
| "rx_match alnum (Alt a b) st = rx_match alnum a st @ rx_match alnum b st"
| "rx_match alnum (Opt a) st = rx_match alnum a st @ [st]"
| "rx_match alnum (Group n a) (p, s, g) =
     map (\<lambda>(p', s', g'). (p', s', g'(n \<mapsto> take (p' - p) s))) (rx_match alnum a (p, s, g))"
| "rx_match alnum Bol (p, s, g) = (if p = 0 then [(p, s, g)] else [])"
| "rx_match alnum Eol (p, s, g) = (if s = [] \<or> s = [10] then [(p, s, g)] else [])"

text \<open>
  \<^verbatim>\<open>re.match(pattern, s)\<close>: the first match at the start of \<open>s\<close>, as the map from group
  numbers to the captured text (group 0 is the whole match; a group that took no part
  is \<open>None\<close>), or \<open>None\<close> when there is no match.
\<close>

definition re_match :: "(nat \<Rightarrow> bool) \<Rightarrow> regex \<Rightarrow> ustring \<Rightarrow> groups option" where
  "re_match alnum r s =
     (case rx_match alnum r (0, s, Map.empty) of
        [] \<Rightarrow> None
      | (p, _, g) # _ \<Rightarrow> Some (g(0 \<mapsto> take p s)))"

section \<open>The constants of the program\<close>

definition LINE_LIMIT :: nat where
  "LINE_LIMIT = 100"

definition BODY_REQUIRED :: bool where
  "BODY_REQUIRED = False"

definition TYPE_LIST :: "ustring list" where
  "TYPE_LIST = map ustr
     [''feat'', ''fix'', ''docs'', ''style'', ''refactor'', ''perf'', ''test'', ''chore'',
      ''revert'', ''Revert'']"

datatype ErrorEnum =
    VALIDATED
  | MERGE
  | ARG_MISSING
  | FILE_MISSING
  | EMPTY_MESSAGE
  | EMPTY_HEADER
  | BAD_HEADER_FORMAT
  | WRONG_TYPE
  | BODY_MISSING
  | NO_BLANK_LINE_BEFORE_BODY
  | LINE_OVERLONG

definition NON_FORMAT_ERROR :: "ErrorEnum list" where
  "NON_FORMAT_ERROR = [VALIDATED, MERGE, ARG_MISSING, FILE_MISSING]"

text \<open>\<^verbatim>\<open>MERGE_PATTERN = r'^Merge '\<close>\<close>

definition MERGE_PATTERN :: regex where
  "MERGE_PATTERN = Seq Bol (Chars (ustr ''Merge ''))"

text \<open>
  \<^verbatim>\<open>HEADER_PATTERN = r'^((fixup! |squash! )?(\w+)(?:\(([^\)\s]+)\))?: (.+))(?:\n|$)'\<close>
\<close>

definition HEADER_PATTERN :: regex where
  "HEADER_PATTERN =
     Seq Bol
      (Seq
        (Group 1
          (Seq (Opt (Group 2 (Alt (Chars (ustr ''fixup! '')) (Chars (ustr ''squash! '')))))
          (Seq (Group 3 (OneOrMore Word))
          (Seq (Opt (Seq (Chars (ustr ''(''))
                    (Seq (Group 4 (OneOrMore (NoneOf [Chr (ord CHR '')''), Space])))
                         (Chars (ustr '')'')))))
          (Seq (Chars (ustr '': ''))
               (Group 5 (OneOrMore AnyButNewline)))))))
        (Alt (Chars [10]) Eol))"

section \<open>Diagnostics\<close>

text \<open>
  \<open>print_error_msg\<close> prints the message of a state, formatted with the keyword
  arguments of the call, and after it the rule text unless the state is one of
  \<open>NON_FORMAT_ERROR\<close>. What a function has printed is the list of these items, in order;
  the wording of the message tables \<^verbatim>\<open>ERROR_MESSAGES\<close> and \<^verbatim>\<open>RULE_MESSAGE\<close> is not
  modelled, and writing to the standard output is taken to succeed.
  A regular-expression group given as an argument is a string or \<^verbatim>\<open>None\<close>.
\<close>

datatype kwarg =
    Kw_filepath ustring
  | Kw_header ustring
  | Kw_type "ustring option"
  | Kw_length nat
  | Kw_line ustring

datatype printed =
    Message ErrorEnum "kwarg list"
  | Rule_message

definition print_error_msg :: "ErrorEnum \<Rightarrow> kwarg list \<Rightarrow> printed list" where
  "print_error_msg state kwargs =
     Message state kwargs # (if state \<notin> set NON_FORMAT_ERROR then [Rule_message] else [])"

section \<open>The checks\<close>

definition check_header :: "(nat \<Rightarrow> bool) \<Rightarrow> ustring \<Rightarrow> bool \<times> printed list" where
  "check_header alnum header =
     (if strip header = [] then (False, print_error_msg EMPTY_HEADER [])
      else
        case re_match alnum HEADER_PATTERN header of
          None \<Rightarrow> (False, print_error_msg BAD_HEADER_FORMAT [Kw_header header])
        | Some match \<Rightarrow>
            let fixup_or_squash = (case match 2 of None \<Rightarrow> False | Some t \<Rightarrow> t \<noteq> []);
                typ = match 3;
                out = (if typ \<notin> set (map Some TYPE_LIST)
                       then print_error_msg WRONG_TYPE [Kw_type typ] else []);
                len = length header
            in
              if len > LINE_LIMIT \<and>
                 \<not> (fixup_or_squash \<or> typ = Some (ustr ''revert'') \<or> typ = Some (ustr ''Revert''))
              then (False, out @ print_error_msg LINE_OVERLONG [Kw_length len, Kw_line header])
              else (True, out))"

text \<open>The loop over the lines of the body: it returns at the first line over the limit.\<close>

fun check_lines :: "ustring list \<Rightarrow> bool \<times> printed list" where
  "check_lines [] = (True, [])"
| "check_lines (line # lines) =
     (let len = length line
      in if len > LINE_LIMIT
         then (False, print_error_msg LINE_OVERLONG [Kw_length len, Kw_line line])
         else check_lines lines)"

definition check_body :: "ustring \<Rightarrow> bool \<times> printed list" where
  "check_body body =
     (if strip body = [] then
        (if BODY_REQUIRED then (False, print_error_msg BODY_MISSING []) else (True, []))
      else if hd (split1 body) \<noteq> [] then
        (False, print_error_msg NO_BLANK_LINE_BEFORE_BODY [])
      else check_lines (splitlines body))"

text \<open>
  \<^verbatim>\<open>header, body = message.split('\n', maxsplit=1)\<close> unpacks a list of exactly two
  elements; on any other list the assignment raises \<^verbatim>\<open>ValueError\<close>, and the exception
  leaves \<open>validate_commit_message\<close>.
\<close>

datatype error = ValueError

definition validate_commit_message ::
    "(nat \<Rightarrow> bool) \<Rightarrow> ustring \<Rightarrow> (error + bool) \<times> printed list" where
  "validate_commit_message alnum message =
     (if strip message = [] then (Inr False, print_error_msg EMPTY_MESSAGE [])
      else if re_match alnum MERGE_PATTERN message \<noteq> None then (Inr True, print_error_msg MERGE [])
      else
        case split1 message of
          [header, body] \<Rightarrow>
            (case check_header alnum header of
               (False, out1) \<Rightarrow> (Inr False, out1)
             | (True, out1) \<Rightarrow>
                 (case check_body body of
                    (False, out2) \<Rightarrow> (Inr False, out1 @ out2)
                  | (True, out2) \<Rightarrow> (Inr True, out1 @ out2 @ print_error_msg VALIDATED [])))
        | _ \<Rightarrow> (Inl ValueError, []))"

section \<open>Auxiliary definitions for the proofs\<close>

text \<open>
  \<open>rx_k\<close> is the matcher in continuation form: every way of matching \<open>r\<close> is handed
  to the continuation \<open>K\<close>, and the results are chained in backtracking order.
  \<open>first_of\<close> is the first element of a list of results.
\<close>

definition rx_k ::
    "(nat \<Rightarrow> bool) \<Rightarrow> regex \<Rightarrow> mstate \<Rightarrow> (mstate \<Rightarrow> 'a list) \<Rightarrow> 'a list" where
  "rx_k alnum r st K = concat (map K (rx_match alnum r st))"

definition first_of :: "'a list \<Rightarrow> 'a option" where
  "first_of xs = (case xs of [] \<Rightarrow> None | x # _ \<Rightarrow> Some x)"

text \<open>The parts of \<open>HEADER_PATTERN\<close>, named.\<close>

definition scope_char :: "nat \<Rightarrow> bool" where
  "scope_char c \<longleftrightarrow> c \<noteq> 41 \<and> \<not> isspace c"

definition rx_subject :: regex where
  "rx_subject = Seq (Chars (ustr '': '')) (Group 5 (OneOrMore AnyButNewline))"

definition rx_scope :: regex where
  "rx_scope = Opt (Seq (Chars (ustr ''(''))
                    (Seq (Group 4 (OneOrMore (NoneOf [Chr (ord CHR '')''), Space])))
                         (Chars (ustr '')''))))"

definition rx_type :: regex where
  "rx_type = Group 3 (OneOrMore Word)"

definition rx_prefix :: regex where
  "rx_prefix = Opt (Group 2 (Alt (Chars (ustr ''fixup! '')) (Chars (ustr ''squash! ''))))"

definition rx_tail :: regex where
  "rx_tail = Seq rx_type (Seq rx_scope rx_subject)"

text \<open>
  What \<open>HEADER_PATTERN\<close> captures, computed from left to right without backtracking:
  \<open>tail_fields\<close> reads the type, the optional scope and the subject, \<open>header_fields\<close>
  the optional prefix before them. \<open>re_match_header\<close> below proves that the matcher
  captures exactly these fields.
\<close>

definition tail_fields ::
    "(nat \<Rightarrow> bool) \<Rightarrow> ustring \<Rightarrow> (ustring \<times> ustring option \<times> ustring) option" where
  "tail_fields alnum s =
     (let typ = takeWhile (is_word alnum) s;
          s2 = dropWhile (is_word alnum) s;
          sc = (if prefix (ustr ''('') s2 then Some (takeWhile scope_char (tl s2)) else None);
          s3 = (case sc of None \<Rightarrow> s2 | Some x \<Rightarrow> tl (dropWhile scope_char (tl s2)));
          subj = takeWhile (\<lambda>c. c \<noteq> 10) (tl (tl s3))
      in if typ \<noteq> [] \<and>
            (case sc of None \<Rightarrow> True
             | Some x \<Rightarrow> x \<noteq> [] \<and> prefix (ustr '')'') (dropWhile scope_char (tl s2))) \<and>
            prefix (ustr '': '') s3 \<and> subj \<noteq> []
         then Some (typ, sc, subj) else None)"

definition header_fields ::
    "(nat \<Rightarrow> bool) \<Rightarrow> ustring \<Rightarrow>
       (ustring option \<times> ustring \<times> ustring option \<times> ustring) option" where
  "header_fields alnum h =
     (if prefix (ustr ''fixup! '') h
      then map_option (Pair (Some (ustr ''fixup! '')))
             (tail_fields alnum (drop (length (ustr ''fixup! '')) h))
      else if prefix (ustr ''squash! '') h
      then map_option (Pair (Some (ustr ''squash! '')))
             (tail_fields alnum (drop (length (ustr ''squash! '')) h))
      else map_option (Pair None) (tail_fields alnum h))"

text \<open>
  The continuation at the end of \<open>HEADER_PATTERN\<close>, after group 1 is closed: the
  alternative \<^verbatim>\<open>(?:\n|$)\<close>, reporting groups 2 and 3.
\<close>

definition K_end :: "mstate \<Rightarrow> (ustring option \<times> ustring option) list" where
  "K_end = (\<lambda>(p, s, g). (if prefix [10] s then [(g 2, g 3)] else []) @
                         (if s = [] \<or> s = [10] then [(g 2, g 3)] else []))"

section \<open>The matcher on the header pattern\<close>

lemma first_simps [simp]:
  "first_of [] = None" "first_of (x # xs) = Some x"
  "first_of (xs @ ys) = (case first_of xs of None \<Rightarrow> first_of ys | Some x \<Rightarrow> Some x)"
  by (simp_all add: first_of_def split: list.splits)

lemma first_rx_k_single: "first_of (rx_k alnum r st (\<lambda>x. [f x])) = map_option f (first_of (rx_match alnum r st))"
  by (cases "rx_match alnum r st") (simp_all add: rx_k_def)

lemma concat_map_bind:
  "concat (map K (concat (map f xs))) = concat (map (\<lambda>x. concat (map K (f x))) xs)"
  by (induction xs) simp_all

lemma rx_k_Seq: "rx_k alnum (Seq a b) st K = rx_k alnum a st (\<lambda>x. rx_k alnum b x K)"
  by (simp add: rx_k_def concat_map_bind)

lemma rx_k_Alt: "rx_k alnum (Alt a b) st K = rx_k alnum a st K @ rx_k alnum b st K"
  by (simp add: rx_k_def)

lemma rx_k_Opt: "rx_k alnum (Opt a) st K = rx_k alnum a st K @ K st"
  by (simp add: rx_k_def)

lemma rx_k_Group: "rx_k alnum (Group i a) (p, s, g) K =
    rx_k alnum a (p, s, g) (\<lambda>(p', s', g'). K (p', s', g'(i \<mapsto> take (p' - p) s)))"
  by (simp add: rx_k_def comp_def case_prod_unfold)

lemma rx_k_Chars: "rx_k alnum (Chars cs) (p, s, g) K =
    (if prefix cs s then K (p + length cs, drop (length cs) s, g) else [])"
  by (simp add: rx_k_def)

lemma rx_k_Bol: "rx_k alnum Bol (p, s, g) K = (if p = 0 then K (p, s, g) else [])"
  by (simp add: rx_k_def)

lemma rx_k_Eol: "rx_k alnum Eol (p, s, g) K = (if s = [] \<or> s = [10] then K (p, s, g) else [])"
  by (simp add: rx_k_def)

lemma concat_rev_upt:
  "(\<And>n. 1 \<le> n \<Longrightarrow> n < N \<Longrightarrow> f n = []) \<Longrightarrow>
   concat (map f (rev [1 ..< Suc N])) = (if N = 0 then [] else f N)"
proof (induction N)
  case 0 then show ?case by simp
next
  case (Suc N)
  have "concat (map f (rev [1 ..< Suc N])) = (if N = 0 then [] else f N)"
    using Suc by simp
  moreover have "N \<noteq> 0 \<Longrightarrow> f N = []" using Suc.prems[of N] by simp
  ultimately show ?case by simp
qed

lemma drop_in_takeWhile:
  "n < length (takeWhile P s) \<Longrightarrow> \<exists>c r. drop n s = c # r \<and> P c"
proof -
  assume n: "n < length (takeWhile P s)"
  have len: "length (takeWhile P s) \<le> length s" by (rule length_takeWhile_le)
  have "takeWhile P s ! n = s ! n" using n by (rule takeWhile_nth)
  moreover have "P (takeWhile P s ! n)" using n by (meson nth_mem set_takeWhileD)
  moreover have "drop n s = s ! n # drop (Suc n) s" using n len by (simp add: Cons_nth_drop_Suc)
  ultimately show ?thesis by auto
qed

lemma rx_k_OneOrMore:
  assumes "\<And>p' c r. in_class alnum k c \<Longrightarrow> K (p', c # r, g) = []"
  shows "rx_k alnum (OneOrMore k) (p, s, g) K =
    (if takeWhile (in_class alnum k) s = [] then []
     else K (p + length (takeWhile (in_class alnum k) s), dropWhile (in_class alnum k) s, g))"
proof -
  let ?N = "length (takeWhile (in_class alnum k) s)"
  have "rx_k alnum (OneOrMore k) (p, s, g) K =
        concat (map (\<lambda>n. K (p + n, drop n s, g)) (rev [1 ..< Suc ?N]))"
    by (simp add: rx_k_def comp_def)
  also have "\<dots> = (if ?N = 0 then [] else K (p + ?N, drop ?N s, g))"
  proof (rule concat_rev_upt)
    fix n assume "1 \<le> n" "n < ?N"
    then obtain c r where "drop n s = c # r" "in_class alnum k c"
      using drop_in_takeWhile by blast
    then show "K (p + n, drop n s, g) = []" using assms by simp
  qed
  finally show ?thesis by (simp add: dropWhile_eq_drop)
qed

lemma rx_k_Group_OneOrMore:
  assumes "\<And>p' c r g'. in_class alnum k c \<Longrightarrow> K (p', c # r, g') = []"
  shows "rx_k alnum (Group i (OneOrMore k)) (p, s, g) K =
    (if takeWhile (in_class alnum k) s = [] then []
     else K (p + length (takeWhile (in_class alnum k) s), dropWhile (in_class alnum k) s,
             g(i \<mapsto> takeWhile (in_class alnum k) s)))"
  apply (simp only: rx_k_Group)
  apply (subst rx_k_OneOrMore)
   apply (simp add: assms)
  apply (simp add: takeWhile_eq_take[symmetric])
  done

lemma HEADER_PATTERN_parts:
  "HEADER_PATTERN =
     Seq Bol (Seq (Group 1 (Seq rx_prefix (Seq rx_type (Seq rx_scope rx_subject))))
                  (Alt (Chars [10]) Eol))"
  by (simp add: HEADER_PATTERN_def rx_prefix_def rx_type_def rx_scope_def rx_subject_def)

lemma ustr_simps [simp]: "ustr [] = []" "ustr (c # cs) = ord c # ustr cs"
  by (simp_all add: ustr_def)

lemma ord_Char [simp]: "ord (Char b0 b1 b2 b3 b4 b5 b6 b7) =
   horner_sum of_bool 2 [b0, b1, b2, b3, b4, b5, b6, b7]"
  by (simp add: ord_def)

lemma in_class_scope [simp]:
  "in_class alnum (NoneOf [Chr 41, Space]) = scope_char"
  by (rule ext) (simp add: scope_char_def)

lemma in_class_dot [simp]: "in_class alnum AnyButNewline = (\<lambda>c. c \<noteq> 10)"
  by (rule ext) simp

lemma in_class_word [simp]: "in_class alnum Word = is_word alnum"
  by (rule ext) simp

lemma rx_subject_k:
  assumes "\<And>p' c r g'. c \<noteq> 10 \<Longrightarrow> K (p', c # r, g') = []"
  shows "rx_k alnum rx_subject (p, s, g) K =
    (if prefix (ustr '': '') s \<and> takeWhile (\<lambda>c. c \<noteq> 10) (tl (tl s)) \<noteq> []
     then K (p + length (ustr '': '') + length (takeWhile (\<lambda>c. c \<noteq> 10) (tl (tl s))),
             dropWhile (\<lambda>c. c \<noteq> 10) (tl (tl s)),
             g(5 \<mapsto> takeWhile (\<lambda>c. c \<noteq> 10) (tl (tl s))))
     else [])"
  unfolding rx_subject_def
  apply (simp only: rx_k_Seq rx_k_Chars)
  apply (subst rx_k_Group_OneOrMore)
   apply (simp add: assms)
  apply (simp add: drop_Suc)
  done

lemma rx_scope_k:
  "rx_k alnum rx_scope (p, s, g) K =
    (if prefix (ustr ''('') s \<and> takeWhile scope_char (tl s) \<noteq> [] \<and>
        prefix (ustr '')'') (dropWhile scope_char (tl s))
     then K (p + length (ustr ''('') + length (takeWhile scope_char (tl s)) + length (ustr '')''),
             tl (dropWhile scope_char (tl s)),
             g(4 \<mapsto> takeWhile scope_char (tl s)))
     else []) @ K (p, s, g)"
  unfolding rx_scope_def
  apply (simp only: rx_k_Opt rx_k_Seq rx_k_Chars)
  apply (subst rx_k_Group_OneOrMore)
   apply (simp add: rx_k_Chars scope_char_def)
  apply (simp add: rx_k_Chars drop_Suc)
  done

lemma is_word_not_punct:
  "is_word alnum c \<Longrightarrow> c \<noteq> 40 \<and> c \<noteq> 58 \<and> c \<noteq> 33 \<and> c \<noteq> 32"
  by (auto simp: is_word_def split: if_splits)

lemma rx_type_k:
  assumes "\<And>p' c r g'. is_word alnum c \<Longrightarrow> K (p', c # r, g') = []"
  shows "rx_k alnum rx_type (p, s, g) K =
    (if takeWhile (is_word alnum) s = [] then []
     else K (p + length (takeWhile (is_word alnum) s), dropWhile (is_word alnum) s,
             g(3 \<mapsto> takeWhile (is_word alnum) s)))"
  unfolding rx_type_def
  apply (subst rx_k_Group_OneOrMore)
   apply (simp add: assms)
  apply simp
  done

lemma prefix_take: "prefix a s \<Longrightarrow> take (length a) s = a"
  by (auto simp: prefix_def)

lemma rx_k_Group_Alt_Chars:
  "rx_k alnum (Group i (Alt (Chars a) (Chars b))) (p, s, g) K =
     (if prefix a s then K (p + length a, drop (length a) s, g(i \<mapsto> a)) else []) @
     (if prefix b s then K (p + length b, drop (length b) s, g(i \<mapsto> b)) else [])"
  by (simp add: rx_k_Group rx_k_Alt rx_k_Chars prefix_take)

lemma rx_prefix_k:
  "rx_k alnum rx_prefix (p, s, g) K =
    (if prefix (ustr ''fixup! '') s
     then K (p + length (ustr ''fixup! ''), drop (length (ustr ''fixup! '')) s,
             g(2 \<mapsto> ustr ''fixup! '')) else []) @
    (if prefix (ustr ''squash! '') s
     then K (p + length (ustr ''squash! ''), drop (length (ustr ''squash! '')) s,
             g(2 \<mapsto> ustr ''squash! '')) else []) @
    K (p, s, g)"
  unfolding rx_prefix_def
  by (simp only: rx_k_Opt rx_k_Group_Alt_Chars append_assoc)

lemma K_end_kill: "c \<noteq> 10 \<Longrightarrow> K_end (p, c # r, g) = []"
  by (simp add: K_end_def)

lemma first_K_end_dropWhile:
  "first_of (K_end (p, dropWhile (\<lambda>c. c \<noteq> 10) s, g)) = Some (g 2, g 3)"
proof (cases "dropWhile (\<lambda>c. c \<noteq> 10) s")
  case Nil
  then show ?thesis by (simp add: K_end_def)
next
  case (Cons a l)
  then have "a = 10" by (simp add: dropWhile_eq_Cons_conv)
  with Cons show ?thesis by (simp add: K_end_def)
qed

lemma first_rx_subject:
  "first_of (rx_k alnum rx_subject (p, s, g) K_end) =
    (if prefix (ustr '': '') s \<and> takeWhile (\<lambda>c. c \<noteq> 10) (tl (tl s)) \<noteq> []
     then Some (g 2, g 3) else None)"
  apply (subst rx_subject_k)
   apply (simp add: K_end_kill)
  apply (simp only: first_K_end_dropWhile if_distrib[of first_of] first_simps)
  apply simp
  done

lemma first_if: "first_of (if b then xs else ys) = (if b then first_of xs else first_of ys)"
  by simp

lemma first_rx_scope_subject:
  "first_of (rx_k alnum (Seq rx_scope rx_subject) (p, s, g) K_end) =
    (if prefix (ustr ''('') s
     then (if takeWhile scope_char (tl s) \<noteq> [] \<and>
              prefix (ustr '')'') (dropWhile scope_char (tl s)) \<and>
              prefix (ustr '': '') (tl (dropWhile scope_char (tl s))) \<and>
              takeWhile (\<lambda>c. c \<noteq> 10) (tl (tl (tl (dropWhile scope_char (tl s))))) \<noteq> []
           then Some (g 2, g 3) else None)
     else (if prefix (ustr '': '') s \<and> takeWhile (\<lambda>c. c \<noteq> 10) (tl (tl s)) \<noteq> []
           then Some (g 2, g 3) else None))"
  apply (simp only: rx_k_Seq rx_scope_k first_simps first_if first_rx_subject)
  apply (cases s)
   apply (auto)
  done

lemma rx_scope_subject_kill:
  "is_word alnum c \<Longrightarrow> rx_k alnum (Seq rx_scope rx_subject) (p, c # r, g) K_end = []"
  apply (simp only: rx_k_Seq rx_scope_k)
  apply (subst rx_subject_k, simp add: K_end_kill)
  apply (subst rx_subject_k, simp add: K_end_kill)
  apply (auto dest: is_word_not_punct)
  done

lemma first_rx_tail:
  "first_of (rx_k alnum rx_tail (p, s, g) K_end) =
     map_option (\<lambda>(typ, sc, subj). (g 2, Some typ)) (tail_fields alnum s)"
  unfolding rx_tail_def
  apply (simp only: rx_k_Seq)
  apply (subst rx_type_k)
   apply (simp only: split_conv rx_k_Seq[symmetric] rx_scope_subject_kill)
  apply (simp only: rx_k_Seq[symmetric] first_if first_rx_scope_subject first_simps)
  apply (simp add: tail_fields_def Let_def)
  done

lemma tail_fields_fixup: "prefix (ustr ''fixup! '') s \<Longrightarrow> tail_fields alnum s = None"
  by (erule prefixE) (simp add: tail_fields_def is_word_def Let_def)

lemma tail_fields_squash: "prefix (ustr ''squash! '') s \<Longrightarrow> tail_fields alnum s = None"
  by (erule prefixE) (simp add: tail_fields_def is_word_def Let_def)

lemma tail_fields_Merge: "prefix (ustr ''Merge '') s \<Longrightarrow> tail_fields alnum s = None"
  by (erule prefixE) (simp add: tail_fields_def is_word_def Let_def)

lemma not_fixup_and_squash: "prefix (ustr ''fixup! '') s \<Longrightarrow> \<not> prefix (ustr ''squash! '') s"
  by (erule prefixE) simp

lemma first_rx_body:
  "first_of (rx_k alnum (Seq rx_prefix rx_tail) (p, h, Map.empty) K_end) =
     map_option (\<lambda>(pfx, typ, sc, subj). (pfx, Some typ)) (header_fields alnum h)"
proof -
  have *: "first_of (rx_k alnum (Seq rx_prefix rx_tail) (p, h, Map.empty) K_end) =
    (case (if prefix (ustr ''fixup! '') h
           then map_option (\<lambda>(typ, sc, subj). (Some (ustr ''fixup! ''), Some typ))
                  (tail_fields alnum (drop (length (ustr ''fixup! '')) h))
           else None) of
       Some x \<Rightarrow> Some x
     | None \<Rightarrow>
        (case (if prefix (ustr ''squash! '') h
               then map_option (\<lambda>(typ, sc, subj). (Some (ustr ''squash! ''), Some typ))
                      (tail_fields alnum (drop (length (ustr ''squash! '')) h))
               else None) of
           Some x \<Rightarrow> Some x
         | None \<Rightarrow> map_option (\<lambda>(typ, sc, subj). (None, Some typ)) (tail_fields alnum h)))"
    by (simp only: rx_k_Seq rx_prefix_k first_simps first_if first_rx_tail fun_upd_same
          map_add_None option.simps)
  show ?thesis
  proof (cases "prefix (ustr ''fixup! '') h")
    case True
    then show ?thesis
      unfolding * header_fields_def
      by (simp only: tail_fields_fixup not_fixup_and_squash if_True if_False)
         (simp add: option.map_comp comp_def split: option.splits)
  next
    case False
    note nf = this
    show ?thesis
    proof (cases "prefix (ustr ''squash! '') h")
      case True
      then show ?thesis
        unfolding * header_fields_def
        by (simp only: nf tail_fields_squash if_True if_False)
           (simp add: option.map_comp comp_def split: option.splits)
    next
      case False
      then show ?thesis
        unfolding * header_fields_def
        by (simp only: nf if_True if_False)
           (simp add: option.map_comp comp_def split: option.splits)
    qed
  qed
qed

lemma header_end_k:
  "(\<lambda>(p', s', g'). rx_k alnum (Alt (Chars [10]) Eol) (p', s', g'(1 \<mapsto> take (p' - 0) h))
       (\<lambda>(p, s, g). [((g(0 \<mapsto> take p h)) 2, (g(0 \<mapsto> take p h)) 3)])) = K_end"
  by (rule ext) (simp add: K_end_def rx_k_Alt rx_k_Chars rx_k_Eol split: prod.splits)

lemma re_match_header:
  "map_option (\<lambda>m. (m 2, m 3)) (re_match alnum HEADER_PATTERN h) =
   map_option (\<lambda>(pfx, typ, sc, subj). (pfx, Some typ)) (header_fields alnum h)"
proof -
  have "map_option (\<lambda>m. (m 2, m 3)) (re_match alnum HEADER_PATTERN h) =
        map_option (\<lambda>(p, s, g). ((g(0 \<mapsto> take p h)) 2, (g(0 \<mapsto> take p h)) 3))
          (first_of (rx_match alnum HEADER_PATTERN (0, h, Map.empty)))"
    by (simp add: re_match_def first_of_def split: list.splits)
  also have "\<dots> = first_of (rx_k alnum HEADER_PATTERN (0, h, Map.empty)
          (\<lambda>(p, s, g). [((g(0 \<mapsto> take p h)) 2, (g(0 \<mapsto> take p h)) 3)]))"
    by (simp only: first_rx_k_single[symmetric] case_prod_unfold)
  also have "\<dots> = first_of (rx_k alnum (Seq rx_prefix rx_tail) (0, h, Map.empty) K_end)"
    unfolding HEADER_PATTERN_parts rx_tail_def[symmetric]
    by (simp only: rx_k_Seq[of _ Bol] rx_k_Seq[of _ "Group 1 _"] rx_k_Bol rx_k_Group
          header_end_k refl if_True)
  finally show ?thesis by (simp only: first_rx_body)
qed

lemma header_matchD:
  assumes "re_match alnum HEADER_PATTERN h = Some m"
  shows "\<exists>pfx typ sc subj. header_fields alnum h = Some (pfx, typ, sc, subj) \<and>
           m 2 = pfx \<and> m 3 = Some typ"
proof (cases "header_fields alnum h")
  case None
  then show ?thesis using re_match_header[of alnum h] assms by simp
next
  case (Some x)
  then show ?thesis using re_match_header[of alnum h] assms by (cases x) auto
qed

lemma header_matchI:
  assumes "header_fields alnum h = Some (pfx, typ, sc, subj)"
  shows "\<exists>m. re_match alnum HEADER_PATTERN h = Some m \<and> m 2 = pfx \<and> m 3 = Some typ"
  using re_match_header[of alnum h] assms by (auto split: prod.splits)

lemma strip_empty_iff: "strip s = [] \<longleftrightarrow> (\<forall>c\<in>set s. isspace c)"
proof
  assume "strip s = []"
  then have "\<forall>c\<in>set (dropWhile isspace s). isspace c"
    by (simp add: strip_def dropWhile_eq_Nil_conv)
  then have "dropWhile isspace s = []"
    by (cases "dropWhile isspace s") (auto simp: dropWhile_eq_Cons_conv)
  then show "\<forall>c\<in>set s. isspace c" by (simp add: dropWhile_eq_Nil_conv)
next
  assume "\<forall>c\<in>set s. isspace c"
  then have d: "dropWhile isspace s = []" by simp
  show "strip s = []" unfolding strip_def d by simp
qed

lemma strip_nonempty: "c \<in> set s \<Longrightarrow> \<not> isspace c \<Longrightarrow> strip s \<noteq> []"
  by (auto simp: strip_empty_iff)

lemma re_match_merge:
  "re_match alnum MERGE_PATTERN message = None \<longleftrightarrow> \<not> prefix (ustr ''Merge '') message"
  by (simp add: re_match_def MERGE_PATTERN_def)

lemma split1_no_newline: "10 \<notin> set s \<Longrightarrow> split1 s = [s]"
proof -
  assume "10 \<notin> set s"
  then have d: "dropWhile (\<lambda>c. c \<noteq> 10) s = []" by auto
  show ?thesis unfolding split1_def d by simp
qed

lemma split1_newline: "10 \<notin> set h \<Longrightarrow> split1 (h @ 10 # b) = [h, b]"
proof -
  assume h: "10 \<notin> set h"
  then have "dropWhile (\<lambda>c. c \<noteq> 10) (h @ 10 # b) = 10 # b"
    by (subst dropWhile_append2) auto
  moreover have "takeWhile (\<lambda>c. c \<noteq> 10) (h @ 10 # b) = h"
    using h by (subst takeWhile_append2) auto
  ultimately show ?thesis by (simp add: split1_def)
qed

lemma hd_split1: "hd (split1 s) = takeWhile (\<lambda>c. c \<noteq> 10) s"
proof (cases "dropWhile (\<lambda>c. c \<noteq> 10) s")
  case Nil
  then have t: "takeWhile (\<lambda>c. c \<noteq> 10) s = s" by simp
  show ?thesis unfolding split1_def Nil t by simp
next
  case (Cons a l)
  then show ?thesis by (simp add: split1_def)
qed

lemma tail_fields_colon:
  assumes "tail_fields alnum s = Some x"
  shows "58 \<in> set s"
proof -
  let ?s2 = "dropWhile (is_word alnum) s"
  let ?s3 = "if prefix (ustr ''('') ?s2 then tl (dropWhile scope_char (tl ?s2)) else ?s2"
  have "prefix (ustr '': '') ?s3"
    using assms by (auto simp: tail_fields_def Let_def split: if_splits)
  then have "58 \<in> set ?s3" by (auto simp: prefix_def)
  moreover have "set ?s3 \<subseteq> set s"
  proof -
    have tl_sub: "\<And>xs :: nat list. set (tl xs) \<subseteq> set xs"
      by (case_tac xs) auto
    have dw_sub: "\<And>P (xs :: nat list). set (dropWhile P xs) \<subseteq> set xs"
      by (auto dest: set_dropWhileD)
    have "set (tl (dropWhile scope_char (tl ?s2))) \<subseteq> set ?s2"
      using tl_sub dw_sub by (meson subset_trans)
    then show ?thesis using dw_sub[of "is_word alnum" s] by auto
  qed
  ultimately show ?thesis by blast
qed

lemma header_fields_colon:
  assumes "header_fields alnum h = Some x"
  shows "58 \<in> set h"
  using assms
  by (auto simp: header_fields_def split: if_splits dest!: tail_fields_colon in_set_dropD)

lemma header_fields_prefix:
  assumes "header_fields alnum h = Some (pfx, typ, sc, subj)"
  shows "(case pfx of None \<Rightarrow> False | Some t \<Rightarrow> t \<noteq> []) \<longleftrightarrow>
         prefix (ustr ''fixup! '') h \<or> prefix (ustr ''squash! '') h"
  using assms by (auto simp: header_fields_def split: if_splits)

lemma header_fields_Merge:
  "prefix (ustr ''Merge '') h \<Longrightarrow> header_fields alnum h = None"
proof -
  assume m: "prefix (ustr ''Merge '') h"
  then have "\<not> prefix (ustr ''fixup! '') h" "\<not> prefix (ustr ''squash! '') h"
    by (auto elim!: prefixE)
  then show ?thesis using m by (simp add: header_fields_def tail_fields_Merge)
qed

lemma header_match_facts:
  assumes "re_match alnum HEADER_PATTERN h = Some m"
  shows "strip h \<noteq> []"
    and "(case m 2 of None \<Rightarrow> False | Some t \<Rightarrow> t \<noteq> []) \<longleftrightarrow>
         prefix (ustr ''fixup! '') h \<or> prefix (ustr ''squash! '') h"
    and "\<not> prefix (ustr ''Merge '') h"
proof -
  obtain pfx ty sc subj where f: "header_fields alnum h = Some (pfx, ty, sc, subj)"
    and m2: "m 2 = pfx" and m3: "m 3 = Some ty"
    using header_matchD[OF assms] by blast
  have "58 \<in> set h" using f by (rule header_fields_colon)
  moreover have "\<not> isspace 58" by (simp add: isspace_def)
  ultimately show "strip h \<noteq> []" by (rule strip_nonempty)
  show "(case m 2 of None \<Rightarrow> False | Some t \<Rightarrow> t \<noteq> []) \<longleftrightarrow>
         prefix (ustr ''fixup! '') h \<or> prefix (ustr ''squash! '') h"
    using header_fields_prefix[OF f] m2 by simp
  show "\<not> prefix (ustr ''Merge '') h"
    using f header_fields_Merge[of h alnum] by auto
qed

lemma prefix_before_newline:
  assumes "10 \<notin> set xs" and "prefix xs (h @ 10 # b)"
  shows "prefix xs h"
  using assms by (auto simp: prefix_append prefix_Cons)

section \<open>Facts about the checks\<close>

lemma validate_no_newline:
  assumes "strip message \<noteq> []" and "\<not> prefix (ustr ''Merge '') message"
    and "10 \<notin> set message"
  shows "validate_commit_message alnum message = (Inl ValueError, [])"
  using assms by (simp add: validate_commit_message_def re_match_merge split1_no_newline)

text \<open>
  \<open>check_header\<close> on a header that matches the pattern, with the prefix test read off
  the header itself.
\<close>

lemma check_header_matched:
  assumes "re_match alnum HEADER_PATTERN header = Some match"
  shows "check_header alnum header =
     (let out = (if match 3 \<notin> set (map Some TYPE_LIST)
                 then [Message WRONG_TYPE [Kw_type (match 3)], Rule_message] else [])
      in if length header > LINE_LIMIT \<and>
            \<not> (prefix (ustr ''fixup! '') header \<or> prefix (ustr ''squash! '') header \<or>
               match 3 = Some (ustr ''revert'') \<or> match 3 = Some (ustr ''Revert''))
         then (False, out @ [Message LINE_OVERLONG [Kw_length (length header), Kw_line header],
                             Rule_message])
         else (True, out))"
  using header_match_facts(1,2)[OF assms] assms
  by (simp add: check_header_def Let_def print_error_msg_def NON_FORMAT_ERROR_def
        del: ustr_simps)

lemma check_body_blank: "\<forall>c\<in>set body. isspace c \<Longrightarrow> check_body body = (True, [])"
  by (simp add: check_body_def strip_empty_iff BODY_REQUIRED_def)

lemma check_lines_first:
  assumes "\<forall>l\<in>set pre. length l \<le> LINE_LIMIT" and "length line > LINE_LIMIT"
  shows "check_lines (pre @ line # post) =
     (False, [Message LINE_OVERLONG [Kw_length (length line), Kw_line line], Rule_message])"
  using assms
  by (induction pre) (simp_all add: Let_def print_error_msg_def NON_FORMAT_ERROR_def)

text \<open>
  Every list of lines that holds a line over the limit splits at the first such line.
\<close>

lemma first_overlong_line:
  assumes "\<exists>l\<in>set ls. length l > LINE_LIMIT"
  shows "\<exists>pre line post. ls = pre @ line # post \<and> (\<forall>l\<in>set pre. length l \<le> LINE_LIMIT) \<and>
           length line > LINE_LIMIT"
  using split_list_first_prop[OF assms] by (auto simp: not_less)

lemma splitlines_from_char:
  "\<not> linebreak c \<Longrightarrow> splitlines_from acc (c # cs) = splitlines_from (c # acc) cs"
  by (cases cs) (auto simp: linebreak_def)

lemma splitlines_from_newline:
  "splitlines_from acc (10 # cs) = rev acc # splitlines_from [] cs"
  by (cases cs) (auto simp: linebreak_def)

lemma splitlines_from_replicate:
  "\<not> linebreak x \<Longrightarrow>
   splitlines_from acc (replicate n x @ cs) = splitlines_from (replicate n x @ acc) cs"
proof (induction n arbitrary: acc)
  case 0
  then show ?case by simp
next
  case (Suc n)
  have "splitlines_from acc (replicate (Suc n) x @ cs) =
        splitlines_from (x # acc) (replicate n x @ cs)"
    using Suc.prems by (simp add: splitlines_from_char)
  also have "\<dots> = splitlines_from (replicate n x @ x # acc) cs"
    using Suc.prems by (rule Suc.IH)
  finally show ?case by (simp add: replicate_app_Cons_same)
qed

lemma splitlines_from_replicate_end:
  "\<not> linebreak x \<Longrightarrow>
   splitlines_from acc (replicate n x) =
     (if n = 0 \<and> acc = [] then [] else [rev acc @ replicate n x])"
  using splitlines_from_replicate[of x acc n "[]"] by auto

section \<open>Concrete messages\<close>

lemma header_fields_foo:
  "header_fields alnum (ustr ''foo: does something'') =
     Some (None, ustr ''foo'', None, ustr ''does something'')"
  by (simp add: header_fields_def tail_fields_def is_word_def Let_def)

lemma header_fields_revert:
  "header_fields alnum (ustr ''revert: '' @ replicate 100 120) =
     Some (None, ustr ''revert'', None, replicate 100 120)"
  by (simp add: header_fields_def tail_fields_def is_word_def Let_def)

lemma header_fields_fixup:
  "header_fields alnum (ustr ''fixup! feat: '' @ replicate 100 120) =
     Some (Some (ustr ''fixup! ''), ustr ''feat'', None, replicate 100 120)"
  by (simp add: header_fields_def tail_fields_def is_word_def Let_def)

lemma header_fields_feat:
  "header_fields alnum (ustr ''feat: '' @ replicate 114 120) =
     Some (None, ustr ''feat'', None, replicate 114 120)"
  by (simp add: header_fields_def tail_fields_def is_word_def Let_def)

lemma header_fields_scenario_1:
  "header_fields alnum (ustr ''feat(parser): add support for arrays'') =
     Some (None, ustr ''feat'', Some (ustr ''parser''), ustr ''add support for arrays'')"
  by (simp add: header_fields_def tail_fields_def is_word_def scope_char_def isspace_def Let_def)

lemma splitlines_example:
  "splitlines (10 # ustr ''ok'' @ 10 # replicate 101 120 @ 10 # replicate 150 121) =
     [[], ustr ''ok'', replicate 101 120, replicate 150 121]"
  by (simp add: splitlines_def splitlines_from_newline splitlines_from_char
        splitlines_from_replicate splitlines_from_replicate_end linebreak_def
        del: splitlines_from.simps)

text \<open>
  Scenario 1 of the specification: a header with a scope, a blank line and a body.
\<close>

lemma validate_scenario_1:
  "validate_commit_message alnum
     (ustr ''feat(parser): add support for arrays'' @ 10 # 10 # ustr ''Closes #12'') =
   (Inr True, [Message VALIDATED []])"
proof -
  let ?h = "ustr ''feat(parser): add support for arrays''"
  let ?b = "10 # ustr ''Closes #12''"
  obtain m where m: "re_match alnum HEADER_PATTERN ?h = Some m"
    and m3: "m 3 = Some (ustr ''feat'')"
    using header_matchI[OF header_fields_scenario_1] by blast
  have h: "check_header alnum ?h = (True, [])"
    using check_header_matched[OF m] m3 by (simp add: Let_def TYPE_LIST_def LINE_LIMIT_def)
  have "strip ?b \<noteq> []" by (rule strip_nonempty[of 67]) (simp_all add: isspace_def)
  moreover have "splitlines ?b = [[], ustr ''Closes #12'']"
    by (simp add: splitlines_def splitlines_from_newline splitlines_from_char linebreak_def
          del: splitlines_from.simps(2,3))
  ultimately have b: "check_body ?b = (True, [])"
    by (simp add: check_body_def hd_split1 LINE_LIMIT_def)
  have s: "strip (?h @ 10 # ?b) \<noteq> []"
    by (rule strip_nonempty[of 102]) (simp_all add: isspace_def)
  have nl: "10 \<notin> set ?h" by simp
  have "\<not> prefix (ustr ''Merge '') (?h @ 10 # ?b)" by simp
  then show ?thesis
    using s
    by (simp add: validate_commit_message_def re_match_merge split1_newline[OF nl] h b
          print_error_msg_def NON_FORMAT_ERROR_def del: ustr_simps)
qed

section \<open>The claims\<close>

text \<open>
  C1. The specification says that a message that is not white space only, does not begin
  with \<^verbatim>\<open>Merge \<close> and holds no line feed, such as \<^verbatim>\<open>update stuff\<close>, is split into the
  header and an empty body, raises no exception and fails with \<open>BAD_HEADER_FORMAT\<close>.
  The code does not: \<^verbatim>\<open>split\<close> returns a single element, the unpacking into
  \<^verbatim>\<open>header, body\<close> raises \<^verbatim>\<open>ValueError\<close>, and nothing has been printed. The theorem
  evaluates the code at \<^verbatim>\<open>update stuff\<close>; \<open>validate_no_newline\<close> is the same for every
  such message.
\<close>

theorem validate_update_stuff_raises:
  "validate_commit_message alnum (ustr ''update stuff'') = (Inl ValueError, [])"
  by (rule validate_no_newline) (simp_all add: strip_def isspace_def)

text \<open>
  C2. For every header that matches the header pattern with a type that is not in
  \<open>TYPE_LIST\<close> and that is not longer than the limit, \<open>check_header\<close> prints
  \<open>WRONG_TYPE\<close> (with the type) and returns success; and when this header is the first
  line of a message whose body passes \<open>check_body\<close>, \<open>validate_commit_message\<close>
  returns success, having printed \<open>WRONG_TYPE\<close>, what the body check printed and
  \<open>VALIDATED\<close>.
\<close>

theorem wrong_type_passes:
  assumes "re_match alnum HEADER_PATTERN header = Some match"
    and "match 3 = Some t" and "t \<notin> set TYPE_LIST"
    and "length header \<le> LINE_LIMIT"
  shows "check_header alnum header =
           (True, [Message WRONG_TYPE [Kw_type (Some t)], Rule_message]) \<and>
         (10 \<notin> set header \<and> check_body body = (True, out) \<longrightarrow>
          validate_commit_message alnum (header @ 10 # body) =
            (Inr True, [Message WRONG_TYPE [Kw_type (Some t)], Rule_message] @ out @
                       [Message VALIDATED []]))"
proof (intro conjI impI)
  show h: "check_header alnum header =
      (True, [Message WRONG_TYPE [Kw_type (Some t)], Rule_message])"
    using assms by (auto simp: check_header_matched[OF assms(1)] Let_def)
  assume "10 \<notin> set header \<and> check_body body = (True, out)"
  then have nl: "10 \<notin> set header" and b: "check_body body = (True, out)" by simp_all
  have "58 \<in> set (header @ 10 # body)"
    using header_matchD[OF assms(1)] header_fields_colon by fastforce
  then have s: "strip (header @ 10 # body) \<noteq> []"
    by (rule strip_nonempty) (simp add: isspace_def)
  have "\<not> prefix (ustr ''Merge '') header" by (rule header_match_facts(3)[OF assms(1)])
  moreover have "10 \<notin> set (ustr ''Merge '')" by simp
  ultimately have m: "\<not> prefix (ustr ''Merge '') (header @ 10 # body)"
    using prefix_before_newline by blast
  show "validate_commit_message alnum (header @ 10 # body) =
           (Inr True, [Message WRONG_TYPE [Kw_type (Some t)], Rule_message] @ out @
                      [Message VALIDATED []])"
    using s m by (simp add: validate_commit_message_def re_match_merge split1_newline[OF nl] h b
       print_error_msg_def NON_FORMAT_ERROR_def)
qed

theorem wrong_type_passes_witness:
  "\<forall>alnum. \<exists>match.
     re_match alnum HEADER_PATTERN (ustr ''foo: does something'') = Some match \<and>
     match 3 = Some (ustr ''foo'') \<and> ustr ''foo'' \<notin> set TYPE_LIST \<and>
     length (ustr ''foo: does something'') \<le> LINE_LIMIT \<and>
     check_header alnum (ustr ''foo: does something'') =
       (True, [Message WRONG_TYPE [Kw_type (Some (ustr ''foo''))], Rule_message]) \<and>
     validate_commit_message alnum (ustr ''foo: does something'' @ [10]) =
       (Inr True, [Message WRONG_TYPE [Kw_type (Some (ustr ''foo''))], Rule_message,
                   Message VALIDATED []])"
proof
  fix alnum
  obtain m where m: "re_match alnum HEADER_PATTERN (ustr ''foo: does something'') = Some m"
    and m3: "m 3 = Some (ustr ''foo'')"
    using header_matchI[OF header_fields_foo] by blast
  have t: "ustr ''foo'' \<notin> set TYPE_LIST" by (simp add: TYPE_LIST_def)
  have l: "length (ustr ''foo: does something'') \<le> LINE_LIMIT" by (simp add: LINE_LIMIT_def)
  have n: "10 \<notin> set (ustr ''foo: does something'')" by simp
  have b: "check_body [] = (True, [])" by (simp add: check_body_blank)
  show "\<exists>match.
     re_match alnum HEADER_PATTERN (ustr ''foo: does something'') = Some match \<and>
     match 3 = Some (ustr ''foo'') \<and> ustr ''foo'' \<notin> set TYPE_LIST \<and>
     length (ustr ''foo: does something'') \<le> LINE_LIMIT \<and>
     check_header alnum (ustr ''foo: does something'') =
       (True, [Message WRONG_TYPE [Kw_type (Some (ustr ''foo''))], Rule_message]) \<and>
     validate_commit_message alnum (ustr ''foo: does something'' @ [10]) =
       (Inr True, [Message WRONG_TYPE [Kw_type (Some (ustr ''foo''))], Rule_message,
                   Message VALIDATED []])"
    using wrong_type_passes[OF m m3 t l, of "[]" "[]"] m m3 t l n b
    by (intro exI[of _ m]) (simp del: ustr_simps)
qed

text \<open>
  C3. For every message that consists of white-space characters only, the empty message
  included, \<open>validate_commit_message\<close> prints \<open>EMPTY_MESSAGE\<close> (a format error, so the
  rule text follows) and returns failure.
\<close>

theorem whitespace_message_fails:
  assumes "\<forall>c\<in>set message. isspace c"
  shows "validate_commit_message alnum message =
           (Inr False, [Message EMPTY_MESSAGE [], Rule_message])"
  using assms
  by (simp add: validate_commit_message_def strip_empty_iff print_error_msg_def
        NON_FORMAT_ERROR_def)

theorem whitespace_message_fails_witness:
  "\<forall>alnum. list_all isspace [32, 9, 10] \<and>
     validate_commit_message alnum [32, 9, 10] =
       (Inr False, [Message EMPTY_MESSAGE [], Rule_message]) \<and>
     validate_commit_message alnum [] = (Inr False, [Message EMPTY_MESSAGE [], Rule_message])"
proof
  fix alnum
  have a: "\<forall>c\<in>set [32, 9, 10]. isspace c" by (simp add: isspace_def)
  have b: "\<forall>c\<in>set ([] :: nat list). isspace c" by simp
  show "list_all isspace [32, 9, 10] \<and>
     validate_commit_message alnum [32, 9, 10] =
       (Inr False, [Message EMPTY_MESSAGE [], Rule_message]) \<and>
     validate_commit_message alnum [] = (Inr False, [Message EMPTY_MESSAGE [], Rule_message])"
    using whitespace_message_fails[OF a, of alnum] whitespace_message_fails[OF b, of alnum]
    by (simp add: isspace_def)
qed

text \<open>
  C4. For every message that begins with \<^verbatim>\<open>Merge \<close>, \<open>validate_commit_message\<close> prints
  \<open>MERGE\<close> and nothing else and returns success, whatever follows in the header and
  the body: no other check runs.
\<close>

theorem merge_message_passes:
  assumes "prefix (ustr ''Merge '') message"
  shows "validate_commit_message alnum message = (Inr True, [Message MERGE []])"
proof -
  have "77 \<in> set message" using assms by (auto elim!: prefixE)
  then have "strip message \<noteq> []" by (rule strip_nonempty) (simp add: isspace_def)
  then show ?thesis
    using assms
    by (simp add: validate_commit_message_def re_match_merge print_error_msg_def
          NON_FORMAT_ERROR_def del: ustr_simps)
qed

theorem merge_message_passes_witness:
  "\<forall>alnum. prefix (ustr ''Merge '') (ustr ''Merge branch x'' @ [10] @ ustr ''no blank line'') \<and>
     validate_commit_message alnum (ustr ''Merge branch x'' @ [10] @ ustr ''no blank line'') =
       (Inr True, [Message MERGE []])"
proof
  fix alnum
  have a: "prefix (ustr ''Merge '') (ustr ''Merge branch x'' @ [10] @ ustr ''no blank line'')"
    by simp
  show "prefix (ustr ''Merge '') (ustr ''Merge branch x'' @ [10] @ ustr ''no blank line'') \<and>
     validate_commit_message alnum (ustr ''Merge branch x'' @ [10] @ ustr ''no blank line'') =
       (Inr True, [Message MERGE []])"
    using merge_message_passes[OF a, of alnum] a by simp
qed

text \<open>
  C5. For every header that matches the pattern and is longer than the limit, and whose
  matched type is exactly \<^verbatim>\<open>revert\<close> or exactly \<^verbatim>\<open>Revert\<close> or which begins with
  \<^verbatim>\<open>fixup! \<close> or \<^verbatim>\<open>squash! \<close>, \<open>check_header\<close> returns success and prints no
  \<open>LINE_OVERLONG\<close> message.
\<close>

theorem overlong_header_exempt:
  assumes "re_match alnum HEADER_PATTERN header = Some match"
    and "length header > LINE_LIMIT"
    and "match 3 = Some (ustr ''revert'') \<or> match 3 = Some (ustr ''Revert'') \<or>
         prefix (ustr ''fixup! '') header \<or> prefix (ustr ''squash! '') header"
  shows "fst (check_header alnum header) = True \<and>
         (\<forall>kwargs. Message LINE_OVERLONG kwargs \<notin> set (snd (check_header alnum header)))"
  using assms(2,3)
  by (auto simp: check_header_matched[OF assms(1)] Let_def simp del: ustr_simps)

theorem overlong_header_exempt_witness:
  "\<forall>alnum.
     (\<exists>match.
        re_match alnum HEADER_PATTERN (ustr ''revert: '' @ replicate 100 120) = Some match \<and>
        length (ustr ''revert: '' @ replicate 100 120) > LINE_LIMIT \<and>
        match 3 = Some (ustr ''revert'') \<and>
        check_header alnum (ustr ''revert: '' @ replicate 100 120) = (True, [])) \<and>
     (\<exists>match.
        re_match alnum HEADER_PATTERN (ustr ''fixup! feat: '' @ replicate 100 120) = Some match \<and>
        length (ustr ''fixup! feat: '' @ replicate 100 120) > LINE_LIMIT \<and>
        prefix (ustr ''fixup! '') (ustr ''fixup! feat: '' @ replicate 100 120) \<and>
        check_header alnum (ustr ''fixup! feat: '' @ replicate 100 120) = (True, []))"
proof (intro allI conjI)
  fix alnum
  let ?h = "ustr ''revert: '' @ replicate 100 120"
  obtain m where m: "re_match alnum HEADER_PATTERN ?h = Some m"
    and m3: "m 3 = Some (ustr ''revert'')"
    using header_matchI[OF header_fields_revert] by blast
  have l: "length ?h > LINE_LIMIT" by (simp add: LINE_LIMIT_def)
  have d: "m 3 = Some (ustr ''revert'') \<or> m 3 = Some (ustr ''Revert'') \<or>
         prefix (ustr ''fixup! '') ?h \<or> prefix (ustr ''squash! '') ?h"
    using m3 by simp
  have "fst (check_header alnum ?h) = True"
    using overlong_header_exempt[OF m l d] by simp
  moreover have "snd (check_header alnum ?h) = []"
    using m3 by (simp add: check_header_matched[OF m] Let_def TYPE_LIST_def del: ustr_simps)
  ultimately have "check_header alnum ?h = (True, [])"
    by (simp add: prod_eq_iff)
  then show "\<exists>match.
     re_match alnum HEADER_PATTERN ?h = Some match \<and>
     length ?h > LINE_LIMIT \<and>
     match 3 = Some (ustr ''revert'') \<and>
     check_header alnum ?h = (True, [])"
    using m m3 l by (intro exI[of _ m]) (simp del: ustr_simps)
next
  fix alnum
  let ?h = "ustr ''fixup! feat: '' @ replicate 100 120"
  obtain m where m: "re_match alnum HEADER_PATTERN ?h = Some m"
    and m3: "m 3 = Some (ustr ''feat'')"
    using header_matchI[OF header_fields_fixup] by blast
  have l: "length ?h > LINE_LIMIT" by (simp add: LINE_LIMIT_def)
  have f: "prefix (ustr ''fixup! '') ?h" by simp
  then have d: "m 3 = Some (ustr ''revert'') \<or> m 3 = Some (ustr ''Revert'') \<or>
         prefix (ustr ''fixup! '') ?h \<or> prefix (ustr ''squash! '') ?h"
    by (simp del: ustr_simps)
  have "fst (check_header alnum ?h) = True"
    using overlong_header_exempt[OF m l d] by simp
  moreover have "snd (check_header alnum ?h) = []"
    using m3 f by (simp add: check_header_matched[OF m] Let_def TYPE_LIST_def del: ustr_simps)
  ultimately have "check_header alnum ?h = (True, [])"
    by (simp add: prod_eq_iff)
  then show "\<exists>match.
     re_match alnum HEADER_PATTERN ?h = Some match \<and>
     length ?h > LINE_LIMIT \<and>
     prefix (ustr ''fixup! '') ?h \<and>
     check_header alnum ?h = (True, [])"
    using m l f by (intro exI[of _ m]) (simp del: ustr_simps)
qed

text \<open>
  C6. For every header that matches the pattern, is longer than the limit and has no
  exemption (its type is neither \<^verbatim>\<open>revert\<close> nor \<^verbatim>\<open>Revert\<close> and it begins with neither
  \<^verbatim>\<open>fixup! \<close> nor \<^verbatim>\<open>squash! \<close>), \<open>check_header\<close> returns failure and its last message
  is \<open>LINE_OVERLONG\<close> with the number of characters of the header and the header
  itself; before it stands \<open>WRONG_TYPE\<close> exactly when the type is not in \<open>TYPE_LIST\<close>.
  For \<^verbatim>\<open>feat: \<close> followed by 114 \<^verbatim>\<open>x\<close> the length reported is 120.
\<close>

theorem overlong_header_fails:
  assumes "re_match alnum HEADER_PATTERN header = Some match"
    and "length header > LINE_LIMIT"
    and "match 3 \<noteq> Some (ustr ''revert'')" and "match 3 \<noteq> Some (ustr ''Revert'')"
    and "\<not> prefix (ustr ''fixup! '') header" and "\<not> prefix (ustr ''squash! '') header"
  shows "check_header alnum header =
     (False,
      (if match 3 \<in> set (map Some TYPE_LIST) then []
       else [Message WRONG_TYPE [Kw_type (match 3)], Rule_message]) @
      [Message LINE_OVERLONG [Kw_length (length header), Kw_line header], Rule_message])"
  using assms(2-)
  by (simp add: check_header_matched[OF assms(1)] Let_def del: ustr_simps)

theorem overlong_header_fails_witness:
  "\<forall>alnum. \<exists>match.
     re_match alnum HEADER_PATTERN (ustr ''feat: '' @ replicate 114 120) = Some match \<and>
     match 3 = Some (ustr ''feat'') \<and>
     length (ustr ''feat: '' @ replicate 114 120) > LINE_LIMIT \<and>
     \<not> prefix (ustr ''fixup! '') (ustr ''feat: '' @ replicate 114 120) \<and>
     \<not> prefix (ustr ''squash! '') (ustr ''feat: '' @ replicate 114 120) \<and>
     check_header alnum (ustr ''feat: '' @ replicate 114 120) =
       (False, [Message LINE_OVERLONG
                  [Kw_length 120, Kw_line (ustr ''feat: '' @ replicate 114 120)],
                Rule_message])"
proof
  fix alnum
  let ?h = "ustr ''feat: '' @ replicate 114 120"
  obtain m where m: "re_match alnum HEADER_PATTERN ?h = Some m"
    and m3: "m 3 = Some (ustr ''feat'')"
    using header_matchI[OF header_fields_feat] by blast
  have l: "length ?h > LINE_LIMIT" by (simp add: LINE_LIMIT_def)
  have r1: "m 3 \<noteq> Some (ustr ''revert'')" and r2: "m 3 \<noteq> Some (ustr ''Revert'')"
    using m3 by simp_all
  have f: "\<not> prefix (ustr ''fixup! '') ?h" and q: "\<not> prefix (ustr ''squash! '') ?h"
    by simp_all
  have t: "Some (ustr ''feat'') \<in> set (map Some TYPE_LIST)" by (simp add: TYPE_LIST_def)
  have len: "length ?h = 120" by simp
  show "\<exists>match.
     re_match alnum HEADER_PATTERN ?h = Some match \<and>
     match 3 = Some (ustr ''feat'') \<and>
     length ?h > LINE_LIMIT \<and>
     \<not> prefix (ustr ''fixup! '') ?h \<and>
     \<not> prefix (ustr ''squash! '') ?h \<and>
     check_header alnum ?h =
       (False, [Message LINE_OVERLONG [Kw_length 120, Kw_line ?h], Rule_message])"
    using overlong_header_fails[OF m l r1 r2 f q] m m3 l f q
    by (intro exI[of _ m]) (simp only: t len if_True append_Nil simp_thms)
qed

text \<open>
  C7. For every body that is not white space only and whose first line (the text before
  the first line feed of the body, or the whole body when it holds none) is not empty,
  \<open>check_body\<close> prints \<open>NO_BLANK_LINE_BEFORE_BODY\<close> and returns failure.
\<close>

theorem no_blank_line_fails:
  assumes "\<not> (\<forall>c\<in>set body. isspace c)"
    and "takeWhile (\<lambda>c. c \<noteq> 10) body \<noteq> []"
  shows "check_body body = (False, [Message NO_BLANK_LINE_BEFORE_BODY [], Rule_message])"
  using assms
  by (simp add: check_body_def strip_empty_iff hd_split1 print_error_msg_def
        NON_FORMAT_ERROR_def)

theorem no_blank_line_fails_witness:
  "\<not> list_all isspace (ustr ''non-blank body line immediately'') \<and>
   takeWhile (\<lambda>c. c \<noteq> 10) (ustr ''non-blank body line immediately'') \<noteq> [] \<and>
   check_body (ustr ''non-blank body line immediately'') =
     (False, [Message NO_BLANK_LINE_BEFORE_BODY [], Rule_message])"
proof -
  have a: "\<not> (\<forall>c\<in>set (ustr ''non-blank body line immediately''). isspace c)"
    by (simp add: isspace_def)
  have b: "takeWhile (\<lambda>c. c \<noteq> 10) (ustr ''non-blank body line immediately'') \<noteq> []"
    by simp
  show ?thesis using no_blank_line_fails[OF a b] a b by (simp add: list_all_iff del: ustr_simps)
qed

text \<open>
  C8. For every body that reaches and passes the blank-line check (it is not white space
  only and its first line is empty) and that has a line longer than the limit,
  \<open>check_body\<close> returns failure and prints \<open>LINE_OVERLONG\<close> once, for the first such
  line, with that line's number of characters and its text. The lines are those of
  \<^verbatim>\<open>splitlines\<close>; \<open>pre\<close> are the lines before the first long one, \<open>post\<close> the lines
  after it, on which the result does not depend: the loop has returned before them.
  By \<open>first_overlong_line\<close> every list with a long line splits in this way.
\<close>

theorem first_overlong_body_line_fails:
  assumes "\<not> (\<forall>c\<in>set body. isspace c)"
    and "takeWhile (\<lambda>c. c \<noteq> 10) body = []"
    and "splitlines body = pre @ line # post"
    and "\<forall>l\<in>set pre. length l \<le> LINE_LIMIT" and "length line > LINE_LIMIT"
  shows "check_body body =
           (False, [Message LINE_OVERLONG [Kw_length (length line), Kw_line line],
                    Rule_message]) \<and>
         check_lines (pre @ line # post) = check_lines (pre @ [line])"
  using assms(1,2)
  by (auto simp: check_body_def strip_empty_iff hd_split1 assms(3)
        check_lines_first[OF assms(4,5)])

theorem first_overlong_body_line_fails_witness:
  "\<not> list_all isspace (10 # ustr ''ok'' @ 10 # replicate 101 120 @ 10 # replicate 150 121) \<and>
   takeWhile (\<lambda>c. c \<noteq> 10)
     (10 # ustr ''ok'' @ 10 # replicate 101 120 @ 10 # replicate 150 121) = [] \<and>
   splitlines (10 # ustr ''ok'' @ 10 # replicate 101 120 @ 10 # replicate 150 121) =
     [[], ustr ''ok''] @ replicate 101 120 # [replicate 150 121] \<and>
   list_all (\<lambda>l. length l \<le> LINE_LIMIT) [[], ustr ''ok''] \<and>
   length (replicate 101 (120::nat)) > LINE_LIMIT \<and>
   check_body (10 # ustr ''ok'' @ 10 # replicate 101 120 @ 10 # replicate 150 121) =
     (False, [Message LINE_OVERLONG [Kw_length 101, Kw_line (replicate 101 120)], Rule_message])"
proof -
  let ?b = "10 # ustr ''ok'' @ 10 # replicate 101 120 @ 10 # replicate 150 121"
  have a: "\<not> (\<forall>c\<in>set ?b. isspace c)" by (simp add: isspace_def)
  have b: "takeWhile (\<lambda>c. c \<noteq> 10) ?b = []" by simp
  have c: "splitlines ?b = [[], ustr ''ok''] @ replicate 101 120 # [replicate 150 121]"
    using splitlines_example by simp
  have d: "\<forall>l\<in>set [[], ustr ''ok'']. length l \<le> LINE_LIMIT" by (simp add: LINE_LIMIT_def)
  have e: "length (replicate 101 (120::nat)) > LINE_LIMIT" by (simp add: LINE_LIMIT_def)
  have "check_body ?b =
     (False, [Message LINE_OVERLONG [Kw_length 101, Kw_line (replicate 101 120)], Rule_message])"
    using first_overlong_body_line_fails[OF a b c d e] by simp
  then show ?thesis using a b c d e by (simp add: list_all_iff del: ustr_simps)
qed

text \<open>
  C10. For every body that consists of white-space characters only, \<open>check_body\<close>
  returns success at once (\<open>BODY_REQUIRED\<close> is \<open>False\<close>) and prints nothing: no line is
  measured, so a body of 150 spaces gives no \<open>LINE_OVERLONG\<close>.
\<close>

theorem whitespace_body_passes:
  assumes "\<forall>c\<in>set body. isspace c"
  shows "check_body body = (True, [])"
  using assms by (rule check_body_blank)

theorem whitespace_body_passes_witness:
  "list_all isspace (replicate 150 32) \<and> check_body (replicate 150 32) = (True, []) \<and>
   check_body [] = (True, [])"
proof -
  have a: "\<forall>c\<in>set (replicate 150 32). isspace c" by (simp add: isspace_def)
  have b: "\<forall>c\<in>set ([] :: nat list). isspace c" by simp
  show ?thesis
    using whitespace_body_passes[OF a] whitespace_body_passes[OF b] a
    by (simp add: list_all_iff)
qed

end
